theory Spec2Isabelle
  imports Main "HOL-Library.Word"
begin

section \<open>COSE\_Encrypt message orchestration (cose/messages/encmessage.py)\<close>

text \<open>
  A shallow embedding of class \<open>EncMessage\<close>. Python objects that the message only
  refers to (its recipients) live in a store indexed by addresses, because \<open>encrypt\<close>
  writes their \<open>payload\<close> attribute in place. Every method returns the outcome
  (\<open>Inl\<close> an exception, \<open>Inr\<close> the returned value) together with the state it
  leaves behind, so that what a raising call has already changed stays visible.
\<close>

subsection \<open>Values\<close>

type_synonym byte = "8 word"
type_synonym bytes = "byte list"
type_synonym addr = nat

text \<open>The value of the \<open>headers.Algorithm\<close> attribute: a COSE algorithm identifier.\<close>
type_synonym alg = int

datatype cbor
  = CInt int
  | CBytes bytes
  | CText string
  | CArray "cbor list"
  | CMap "(cbor \<times> cbor) list"

type_synonym header = "(cbor \<times> cbor) list"

text \<open>
  Exceptions. A constructor stands for the Python class and its subclasses;
  \<open>CoseException\<close> carries its message, \<open>OtherError\<close> is any exception that is
  none of the others.
\<close>
datatype error
  = TypeError
  | IndexError
  | ValueError
  | AttributeError
  | CoseException string
  | OtherError string

datatype keyop = EncryptOp | DecryptOp

text \<open>\<open>SymmetricKey(key=..., optional_params={KpAlg: ..., KpKeyOps: ...})\<close>.\<close>
record symmetric_key =
  k :: bytes
  kp_alg :: "alg option"
  kp_key_ops :: "keyop list"

text \<open>
  The class of a recipient object: the four classes \<open>encrypt\<close> and \<open>decrypt\<close> test
  for, and \<open>OtherRecipient\<close> for any other subclass of \<open>CoseRecipient\<close>.
\<close>
datatype rclass
  = DirectEncryption
  | DirectKeyAgreement
  | KeyWrap
  | KeyAgreementWithKeyWrap
  | OtherRecipient

text \<open>
  An object of the store: a \<open>CoseRecipient\<close> with its class and its \<open>payload\<close>
  attribute, or an object of a class that does not derive from \<open>CoseRecipient\<close>
  (it has no \<open>payload\<close> attribute).
\<close>
datatype pyobj
  = Recipient (r_class: rclass) (r_payload: bytes)
  | Foreign

type_synonym heap = "addr \<Rightarrow> pyobj"

text \<open>The fields of an \<open>EncMessage\<close>; \<open>recipients\<close> is the attribute \<open>_recipients\<close>.\<close>
record envelope =
  phdr :: header
  uhdr :: header
  payload :: bytes
  external_aad :: bytes
  key :: "symmetric_key option"
  recipients :: "addr list"

text \<open>
  The calls the message makes to the entropy source, to its recipients and to the
  AEAD step of the base class, in program order. The log is ghost state: nothing reads it.
  A \<open>RecipientEncrypt\<close> entry records the payload the recipient holds when called, the
  AEAD entries the key the message holds when called.
\<close>
datatype event
  = Urandom nat
  | ComputeCek addr "alg option" string
  | RecipientEncrypt addr "alg option" bytes
  | RecipientEncode addr "alg option"
  | AeadSeal "symmetric_key option"
  | AeadOpen "symmetric_key option"

record state =
  self :: envelope
  heap :: heap
  rng :: nat
  calls :: "event list"

subsection \<open>Collaborators\<close>

text \<open>
  The functions of the repository that \<open>encmessage.py\<close> calls and that are defined
  elsewhere (\<open>cose.messages.recipient\<close>, \<open>cose.messages.enccommon\<close>,
  \<open>cose.messages.cosemessage\<close>, the algorithm classes) and \<open>os.urandom\<close> are
  parameters of the model. Methods of a recipient may change the store and may raise.
  The AEAD step of the base class has the interface of section 6 of the spec,
  \<open>EncryptionCommonBase.encrypt()/decrypt() -> bytes\<close> over key, header-derived
  AAD and payload: it reads the message and returns bytes or raises. The constructor of
  \<open>SymmetricKey\<close> is the spec's "construction from raw bytes + algorithm +
  allowed-operations tag" and builds the record.
\<close>
record collab =
  get_attr :: "envelope \<Rightarrow> alg option"
  get_key_length :: "alg \<Rightarrow> nat"
  entropy :: "nat \<Rightarrow> byte"
  verify_recipients :: "addr list \<Rightarrow> heap \<Rightarrow> error + rclass set"
  has_recipient :: "addr \<Rightarrow> addr list \<Rightarrow> heap \<Rightarrow> bool"
  obj_repr :: "pyobj \<Rightarrow> string"
  compute_cek :: "addr \<Rightarrow> alg option \<Rightarrow> string \<Rightarrow> heap \<Rightarrow> (error + symmetric_key) \<times> heap"
  recipient_encrypt :: "addr \<Rightarrow> alg option \<Rightarrow> heap \<Rightarrow> (error + unit) \<times> heap"
  recipient_encode :: "addr \<Rightarrow> alg option \<Rightarrow> heap \<Rightarrow> (error + cbor) \<times> heap"
  create_recipient :: "cbor \<Rightarrow> string \<Rightarrow> heap \<Rightarrow> (error + addr) \<times> heap"
  base_encrypt :: "envelope \<Rightarrow> error + bytes"
  base_decrypt :: "envelope \<Rightarrow> error + bytes"
  parse_header :: "cbor \<Rightarrow> error + header"
  phdr_encoded :: "envelope \<Rightarrow> bytes"
  uhdr_encoded :: "envelope \<Rightarrow> cbor"
  base_encode :: "cbor list \<Rightarrow> bool \<Rightarrow> error + bytes"

subsection \<open>The \<open>recipients\<close> property and the constructor\<close>

text \<open>
  The loop of the setter, as the list iterator runs it:
  \<^verbatim>\<open>
  for r in recipients:
      if not issubclass(type(r), CoseRecipient):
          raise TypeError(...)
      self._recipients.append(r)
  \<close>
  The iterator holds an index into the assigned list and stops when the index reaches
  the current length of that list. \<open>issubclass(type(r), CoseRecipient)\<close> fails for an
  object that is no recipient; an accepted element is appended to \<open>_recipients\<close> at
  once. The assigned list is a list object of its own (\<open>Some ys\<close>) or the list object
  \<open>_recipients\<close> itself (\<open>None\<close>), which the getter hands out: then every append
  lengthens the list that is being iterated. A loop that does not return has the value
  \<open>None\<close>.
\<close>
partial_function (option) iterate_append ::
  "heap \<Rightarrow> addr list option \<Rightarrow> nat \<Rightarrow> envelope \<Rightarrow> ((error + unit) \<times> envelope) option" where
  "iterate_append h other i e =
     (let xs = (case other of None \<Rightarrow> recipients e | Some ys \<Rightarrow> ys) in
      if i < length xs then
        (case h (xs ! i) of
           Foreign \<Rightarrow> Some (Inl TypeError, e)
         | Recipient c p \<Rightarrow>
             iterate_append h other (Suc i) (e\<lparr>recipients := recipients e @ [xs ! i]\<rparr>))
      else Some (Inr (), e))"

text \<open>
  What a caller assigns to the property: \<open>None\<close>, a list object other than
  \<open>_recipients\<close>, or the list object \<open>_recipients\<close> itself
  (\<open>m.recipients = m.recipients\<close>, \<open>m.recipients += [r]\<close>).
\<close>
datatype assigned = NoneValue | OtherList "addr list" | StoredList

text \<open>The setter of the property \<open>recipients\<close>.\<close>
definition recipients_setter ::
  "heap \<Rightarrow> assigned \<Rightarrow> envelope \<Rightarrow> ((error + unit) \<times> envelope) option" where
  "recipients_setter h arg e =
     (case arg of
        NoneValue \<Rightarrow> Some (Inr (), e\<lparr>recipients := []\<rparr>)
      | OtherList xs \<Rightarrow> iterate_append h (Some xs) 0 e
      | StoredList \<Rightarrow> iterate_append h None 0 e)"

text \<open>
  On a list object other than \<open>_recipients\<close> the appends do not reach the iterated
  list, and the loop is a recursion over the assigned list (\<open>iterate_append_other\<close>
  proves that the two agree). The constructor and \<open>from_cose_obj\<close> only assign such
  lists: the constructor's argument meets a \<open>_recipients\<close> created one line earlier,
  \<open>from_cose_obj\<close> assigns a new list comprehension or the literal \<open>[]\<close>.
\<close>
fun append_recipients :: "heap \<Rightarrow> addr list \<Rightarrow> envelope \<Rightarrow> (error + unit) \<times> envelope" where
  "append_recipients h [] e = (Inr (), e)"
| "append_recipients h (r # rs) e =
     (case h r of
        Foreign \<Rightarrow> (Inl TypeError, e)
      | Recipient c p \<Rightarrow> append_recipients h rs (e\<lparr>recipients := recipients e @ [r]\<rparr>))"

text \<open>The setter on \<open>None\<close> or on a list object other than \<open>_recipients\<close>.\<close>
definition set_recipients :: "heap \<Rightarrow> addr list option \<Rightarrow> envelope \<Rightarrow> (error + unit) \<times> envelope" where
  "set_recipients h arg e =
     (case arg of
        None \<Rightarrow> (Inr (), e\<lparr>recipients := []\<rparr>)
      | Some rs \<Rightarrow> append_recipients h rs e)"

text \<open>
  \<open>__init__\<close>: absent headers become empty maps, the base class stores the fields,
  \<open>_recipients\<close> starts empty and the argument goes through the setter. A constructor
  that raises returns no object.
\<close>
definition init ::
  "heap \<Rightarrow> header option \<Rightarrow> header option \<Rightarrow> bytes \<Rightarrow> bytes \<Rightarrow> symmetric_key option \<Rightarrow>
   addr list option \<Rightarrow> error + envelope" where
  "init h phdr_arg uhdr_arg payload_arg aad_arg key_arg recipients_arg =
     (let e0 = \<lparr>phdr = (case phdr_arg of None \<Rightarrow> [] | Some p \<Rightarrow> p),
                uhdr = (case uhdr_arg of None \<Rightarrow> [] | Some u \<Rightarrow> u),
                payload = payload_arg, external_aad = aad_arg, key = key_arg,
                recipients = []\<rparr>
      in case set_recipients h recipients_arg e0 of
           (Inl err, e1) \<Rightarrow> Inl err
         | (Inr u, e1) \<Rightarrow> Inr e1)"

subsection \<open>Encryption\<close>

text \<open>
  \<open>os.urandom(n)\<close>: the next \<open>n\<close> bytes of the entropy source.
\<close>
definition urandom :: "collab \<Rightarrow> nat \<Rightarrow> state \<Rightarrow> bytes \<times> state" where
  "urandom C n s =
     (map (entropy C) [rng s ..< rng s + n],
      s\<lparr>rng := rng s + n, calls := calls s @ [Urandom n]\<rparr>)"

text \<open>\<open>super(EncMessage, self).encrypt()\<close> and \<open>.decrypt()\<close>: the AEAD step.\<close>
definition seal :: "collab \<Rightarrow> state \<Rightarrow> (error + bytes) \<times> state" where
  "seal C s = (base_encrypt C (self s), s\<lparr>calls := calls s @ [AeadSeal (key (self s))]\<rparr>)"

definition unseal :: "collab \<Rightarrow> state \<Rightarrow> (error + bytes) \<times> state" where
  "unseal C s = (base_decrypt C (self s), s\<lparr>calls := calls s @ [AeadOpen (key (self s))]\<rparr>)"

text \<open>
  The loop of the key wrap branch:
  \<^verbatim>\<open>
  for r in self.recipients:
      if r.payload == b'':
          r.payload = key_bytes
      else:
          key_bytes = r.payload
      r.encrypt(target_algorithm)
  \<close>
  It returns the last value of \<open>key_bytes\<close>.
\<close>
fun wrap_pass :: "collab \<Rightarrow> alg option \<Rightarrow> addr list \<Rightarrow> bytes \<Rightarrow> state \<Rightarrow> (error + bytes) \<times> state" where
  "wrap_pass C target [] key_bytes s = (Inr key_bytes, s)"
| "wrap_pass C target (r # rs) key_bytes s =
     (case heap s r of
        Foreign \<Rightarrow> (Inl AttributeError, s)
      | Recipient c p \<Rightarrow>
          (let s1 = (if p = [] then s\<lparr>heap := (heap s)(r := Recipient c key_bytes)\<rparr> else s);
               key_bytes1 = (if p = [] then key_bytes else p);
               s2 = s1\<lparr>calls := calls s1 @ [RecipientEncrypt r target (r_payload (heap s1 r))]\<rparr>
           in case recipient_encrypt C r target (heap s2) of
                (Inl err, h) \<Rightarrow> (Inl err, s2\<lparr>heap := h\<rparr>)
              | (Inr u, h) \<Rightarrow> wrap_pass C target rs key_bytes1 (s2\<lparr>heap := h\<rparr>)))"

text \<open>
  \<open>EncMessage.encrypt\<close>. \<open>self.recipients[0]\<close> raises \<open>IndexError\<close> on an empty
  list, and \<open>get_key_length\<close> of an absent algorithm attribute (\<open>None\<close>) raises
  \<open>AttributeError\<close>.
\<close>
definition encrypt :: "collab \<Rightarrow> state \<Rightarrow> (error + bytes) \<times> state" where
  "encrypt C s =
     (let target_algorithm = get_attr C (self s) in
      case verify_recipients C (recipients (self s)) (heap s) of
        Inl err \<Rightarrow> (Inl err, s)
      | Inr r_types \<Rightarrow>
          if DirectEncryption \<in> r_types then seal C s
          else if DirectKeyAgreement \<in> r_types then
            (case recipients (self s) of
               [] \<Rightarrow> (Inl IndexError, s)
             | r0 # rest \<Rightarrow>
                 (let s1 = s\<lparr>calls := calls s @ [ComputeCek r0 target_algorithm ''encrypt'']\<rparr>
                  in case compute_cek C r0 target_algorithm ''encrypt'' (heap s1) of
                       (Inl err, h) \<Rightarrow> (Inl err, s1\<lparr>heap := h\<rparr>)
                     | (Inr cek, h) \<Rightarrow>
                         seal C (s1\<lparr>heap := h, self := (self s1)\<lparr>key := Some cek\<rparr>\<rparr>)))
          else if KeyWrap \<in> r_types \<or> KeyAgreementWithKeyWrap \<in> r_types then
            (case get_attr C (self s) of
               None \<Rightarrow> (Inl AttributeError, s)
             | Some a \<Rightarrow>
                 (case urandom C (get_key_length C a) s of
                    (key_bytes, s1) \<Rightarrow>
                      (case wrap_pass C target_algorithm (recipients (self s1)) key_bytes s1 of
                         (Inl err, s2) \<Rightarrow> (Inl err, s2)
                       | (Inr key_bytes1, s2) \<Rightarrow>
                           seal C (s2\<lparr>self := (self s2)\<lparr>key :=
                             Some \<lparr>k = key_bytes1, kp_alg = target_algorithm,
                                   kp_key_ops = [EncryptOp]\<rparr>\<rparr>\<rparr>))))
          else (Inl (CoseException ''Unsupported COSE recipient class''), s))"

subsection \<open>Decryption\<close>

text \<open>\<open>EncMessage.decrypt\<close>; the argument is a reference to a recipient object.\<close>
definition decrypt :: "collab \<Rightarrow> addr \<Rightarrow> state \<Rightarrow> (error + bytes) \<times> state" where
  "decrypt C recipient s =
     (let target_algorithm = get_attr C (self s) in
      if \<not> has_recipient C recipient (recipients (self s)) (heap s) then
        (Inl (CoseException (''Cannot find recipient: '' @ obj_repr C (heap s recipient))), s)
      else
        case verify_recipients C (recipients (self s)) (heap s) of
          Inl err \<Rightarrow> (Inl err, s)
        | Inr r_types \<Rightarrow>
            if DirectEncryption \<in> r_types then unseal C s
            else if DirectKeyAgreement \<in> r_types \<or> KeyWrap \<in> r_types
                    \<or> KeyAgreementWithKeyWrap \<in> r_types then
              (let s1 = s\<lparr>calls := calls s @ [ComputeCek recipient target_algorithm ''decrypt'']\<rparr>
               in case compute_cek C recipient target_algorithm ''decrypt'' (heap s1) of
                    (Inl err, h) \<Rightarrow> (Inl err, s1\<lparr>heap := h\<rparr>)
                  | (Inr cek, h) \<Rightarrow>
                      unseal C (s1\<lparr>heap := h, self := (self s1)\<lparr>key := Some cek\<rparr>\<rparr>))
            else (Inl (CoseException ''Unsupported COSE recipient class''), s))"

subsection \<open>Encoding and decoding\<close>

text \<open>
  The list comprehension of \<open>encode\<close>:
  \<open>[r.encode(target_alg=self.get_attr(headers.Algorithm)) for r in self.recipients]\<close>.
\<close>
fun encode_recipients :: "collab \<Rightarrow> alg option \<Rightarrow> addr list \<Rightarrow> state \<Rightarrow> (error + cbor list) \<times> state" where
  "encode_recipients C target [] s = (Inr [], s)"
| "encode_recipients C target (r # rs) s =
     (let s1 = s\<lparr>calls := calls s @ [RecipientEncode r target]\<rparr>
      in case recipient_encode C r target (heap s1) of
           (Inl err, h) \<Rightarrow> (Inl err, s1\<lparr>heap := h\<rparr>)
         | (Inr x, h) \<Rightarrow>
             (case encode_recipients C target rs (s1\<lparr>heap := h\<rparr>) of
                (Inl err, s2) \<Rightarrow> (Inl err, s2)
              | (Inr xs, s2) \<Rightarrow> (Inr (x # xs), s2)))"

text \<open>
  The array \<open>message\<close> that \<open>encode\<close> builds before it hands it to the base class.
  The header encodings are read before \<open>self.encrypt()\<close> runs.
\<close>
definition encode_message :: "collab \<Rightarrow> bool \<Rightarrow> state \<Rightarrow> (error + cbor list) \<times> state" where
  "encode_message C do_encrypt s =
     (let p = CBytes (phdr_encoded C (self s)); u = uhdr_encoded C (self s) in
      case (if do_encrypt then encrypt C s else (Inr (payload (self s)), s)) of
        (Inl err, s1) \<Rightarrow> (Inl err, s1)
      | (Inr body, s1) \<Rightarrow>
          (let message = [p, u, CBytes body] in
           if length (recipients (self s1)) \<noteq> 0 then
             (case encode_recipients C (get_attr C (self s1)) (recipients (self s1)) s1 of
                (Inl err, s2) \<Rightarrow> (Inl err, s2)
              | (Inr xs, s2) \<Rightarrow> (Inr (message @ [CArray xs]), s2))
           else (Inr message, s1)))"

definition encode :: "collab \<Rightarrow> bool \<Rightarrow> bool \<Rightarrow> state \<Rightarrow> (error + bytes) \<times> state" where
  "encode C tag do_encrypt s =
     (case encode_message C do_encrypt s of
        (Inl err, s1) \<Rightarrow> (Inl err, s1)
      | (Inr message, s1) \<Rightarrow> (base_encode C message tag, s1))"

text \<open>
  Modelled from the spec: the base classes' \<open>from_cose_obj\<close> (in
  \<open>cose.messages.cosemessage\<close> and \<open>cose.messages.enccommon\<close>, not part of
  \<open>encmessage.py\<close>) "parse the base three-element array": they take the protected
  header, the unprotected header and the payload off the front of the array, create the
  message through the constructor without recipients, and leave the rest of the array
  for the caller. An array with fewer than three elements, or a third element that is no
  byte string, makes them raise.
\<close>
definition base_from_cose_obj :: "collab \<Rightarrow> heap \<Rightarrow> cbor list \<Rightarrow> error + envelope \<times> cbor list" where
  "base_from_cose_obj C h cose_obj =
     (case cose_obj of
        p # u # CBytes c # rest \<Rightarrow>
          (case parse_header C p of
             Inl err \<Rightarrow> Inl err
           | Inr ph \<Rightarrow>
               (case parse_header C u of
                  Inl err \<Rightarrow> Inl err
                | Inr uh \<Rightarrow>
                    (case init h (Some ph) (Some uh) c [] None None of
                       Inl err \<Rightarrow> Inl err
                     | Inr msg \<Rightarrow> Inr (msg, rest))))
      | [p, u, c] \<Rightarrow> Inl TypeError
      | p # u # c # x # rest \<Rightarrow> Inl TypeError
      | _ \<Rightarrow> Inl IndexError)"

text \<open>
  \<open>for r in x\<close>: a Python list yields its elements, a byte string its bytes as
  integers, a text string its characters, a dict its keys; an integer is not iterable.
\<close>
fun py_iter :: "cbor \<Rightarrow> error + cbor list" where
  "py_iter (CArray xs) = Inr xs"
| "py_iter (CBytes bs) = Inr (map (\<lambda>b. CInt (uint b)) bs)"
| "py_iter (CText cs) = Inr (map (\<lambda>c. CText [c]) cs)"
| "py_iter (CMap kvs) = Inr (map fst kvs)"
| "py_iter (CInt i) = Inl TypeError"

text \<open>
  The list comprehension of \<open>from_cose_obj\<close>:
  \<open>[CoseRecipient.create_recipient(r, context='Enc_Recipient') for r in ...]\<close>.
\<close>
fun create_recipients :: "collab \<Rightarrow> cbor list \<Rightarrow> heap \<Rightarrow> (error + addr list) \<times> heap" where
  "create_recipients C [] h = (Inr [], h)"
| "create_recipients C (x # xs) h =
     (case create_recipient C x ''Enc_Recipient'' h of
        (Inl err, h1) \<Rightarrow> (Inl err, h1)
      | (Inr r, h1) \<Rightarrow>
          (case create_recipients C xs h1 of
             (Inl err, h2) \<Rightarrow> (Inl err, h2)
           | (Inr rs, h2) \<Rightarrow> (Inr (r # rs), h2)))"

text \<open>
  The body of the \<open>try\<close>: pop the next element of the array (\<open>IndexError\<close> when
  there is none), build the recipients, assign them through the setter.
\<close>
definition try_recipients :: "collab \<Rightarrow> cbor list \<Rightarrow> envelope \<Rightarrow> heap \<Rightarrow> (error + envelope) \<times> heap" where
  "try_recipients C cose_obj msg h =
     (case cose_obj of
        [] \<Rightarrow> (Inl IndexError, h)
      | x # rest \<Rightarrow>
          (case py_iter x of
             Inl err \<Rightarrow> (Inl err, h)
           | Inr items \<Rightarrow>
               (case create_recipients C items h of
                  (Inl err, h1) \<Rightarrow> (Inl err, h1)
                | (Inr rs, h1) \<Rightarrow>
                    (case set_recipients h1 (Some rs) msg of
                       (Inl err, msg1) \<Rightarrow> (Inl err, h1)
                     | (Inr u, msg1) \<Rightarrow> (Inr msg1, h1)))))"

text \<open>What \<open>except (IndexError, ValueError)\<close> catches.\<close>
fun caught :: "error \<Rightarrow> bool" where
  "caught IndexError = True"
| "caught ValueError = True"
| "caught e = False"

text \<open>
  \<open>EncMessage.from_cose_obj\<close>. The handler assigns the empty list through the same
  setter, to the message as the base class returned it.
\<close>
definition from_cose_obj :: "collab \<Rightarrow> cbor list \<Rightarrow> heap \<Rightarrow> (error + envelope) \<times> heap" where
  "from_cose_obj C cose_obj h =
     (case base_from_cose_obj C h cose_obj of
        Inl err \<Rightarrow> (Inl err, h)
      | Inr (msg, rest) \<Rightarrow>
          (case try_recipients C rest msg h of
             (Inr msg1, h1) \<Rightarrow> (Inr msg1, h1)
           | (Inl err, h1) \<Rightarrow>
               if caught err then
                 (case set_recipients h1 (Some []) msg of
                    (Inl err1, msg1) \<Rightarrow> (Inl err1, h1)
                  | (Inr u, msg1) \<Rightarrow> (Inr msg1, h1))
               else (Inl err, h1)))"

subsection \<open>Recipient classification and lookup, as the spec describes them\<close>

text \<open>
  Modelled from the spec: \<open>CoseRecipient.verify_recipients\<close> is defined in
  \<open>cose.messages.recipient\<close>, not in \<open>encmessage.py\<close>. The spec describes it as
  \<open>classify(recipients)\<close>, which "returns the single uniform variant, or signals
  mixed/empty as an error", and gives that failure the kind Unsupported Recipient Class,
  the kind of the exception \<open>encrypt\<close> raises itself. The result supports the
  membership tests of \<open>encrypt\<close> and \<open>decrypt\<close>.
\<close>
definition classify :: "addr list \<Rightarrow> heap \<Rightarrow> error + rclass set" where
  "classify rs h =
     (case map h rs of
        [] \<Rightarrow> Inl (CoseException ''Unsupported COSE recipient class'')
      | Foreign # os \<Rightarrow> Inl (CoseException ''Unsupported COSE recipient class'')
      | Recipient c p # os \<Rightarrow>
          if list_all (\<lambda>ob. case ob of Foreign \<Rightarrow> False | Recipient c1 p1 \<Rightarrow> c1 = c) os
          then Inr {c}
          else Inl (CoseException ''Unsupported COSE recipient class''))"

text \<open>
  Modelled from the spec: \<open>CoseRecipient.has_recipient\<close> is defined in
  \<open>cose.messages.recipient\<close>. The spec describes it as
  \<open>contains(recipient, recipients)\<close>, an identity lookup in the list.
\<close>
definition contains :: "addr \<Rightarrow> addr list \<Rightarrow> heap \<Rightarrow> bool" where
  "contains r rs h = (r \<in> set rs)"

subsection \<open>The key wrap pass, in the words of the spec\<close>

text \<open>
  "If a recipient's carrier payload is empty, assign it the generated key bytes; if a
  recipient already carries payload bytes, that carried value instead overrides the
  group key": the key material that is settled once a recipient with carrier payload
  \<open>p\<close> has been visited with current key bytes \<open>kb\<close>.
\<close>
definition settle :: "bytes \<Rightarrow> bytes \<Rightarrow> bytes" where
  "settle kb p = (if p = [] then kb else p)"

text \<open>
  One pass, left to right: the visited recipient carries the settled material and is
  asked to wrap it, and "subsequent recipients in the iteration adopt that value for the
  remainder of the pass". The result is the list of wrap requests, the final settled
  bytes and the store the pass leaves.
\<close>
fun key_wrap_spec ::
  "collab \<Rightarrow> alg option \<Rightarrow> addr list \<Rightarrow> bytes \<Rightarrow> heap \<Rightarrow> event list \<times> bytes \<times> heap" where
  "key_wrap_spec C target [] kb h = ([], kb, h)"
| "key_wrap_spec C target (r # rs) kb h =
     (let kb1 = settle kb (r_payload (h r));
          h1 = h(r := Recipient (r_class (h r)) kb1);
          h2 = snd (recipient_encrypt C r target h1);
          (evs, kb2, h3) = key_wrap_spec C target rs kb1 h2
      in (RecipientEncrypt r target kb1 # evs, kb2, h3))"

subsection \<open>The recipient array, in the words of the spec\<close>

text \<open>
  "The ordered sequence of each recipient's own encoded form, where each recipient's
  encoding is parameterized by the Envelope's negotiated algorithm header": \<open>xs\<close> holds,
  in the order of the recipient list, what each recipient's \<open>encode\<close> returns for the
  algorithm \<open>target\<close>, the first in the store \<open>h\<close> the message is in, each next one in
  the store the encoding before it left, and \<open>h'\<close> is the store left at the end.
\<close>
fun encoded_in_order ::
  "collab \<Rightarrow> alg option \<Rightarrow> addr list \<Rightarrow> heap \<Rightarrow> cbor list \<Rightarrow> heap \<Rightarrow> bool" where
  "encoded_in_order C target [] h xs h' = (xs = [] \<and> h' = h)"
| "encoded_in_order C target (r # rs) h xs h' =
     (case xs of
        [] \<Rightarrow> False
      | x # xs1 \<Rightarrow>
          (case recipient_encode C r target h of
             (Inl err, h1) \<Rightarrow> False
           | (Inr y, h1) \<Rightarrow> y = x \<and> encoded_in_order C target rs h1 xs1 h'))"

subsection \<open>Example collaborators\<close>

text \<open>
  A concrete instance of the collaborators, for evaluating the model on concrete
  messages: a constant algorithm with 16-byte keys, classification and lookup as the
  spec describes them, recipients that wrap and encode without changing the store, an
  AEAD step that needs a key, and a recipient factory that accepts three-element
  arrays only.
\<close>
definition C0 :: collab where
  "C0 = \<lparr>get_attr = (\<lambda>e. Some 1),
         get_key_length = (\<lambda>a. 16),
         entropy = (\<lambda>i. of_nat i),
         verify_recipients = classify,
         has_recipient = contains,
         obj_repr = (\<lambda>ob. ''<COSE_Recipient>''),
         compute_cek = (\<lambda>r a m h. (Inr \<lparr>k = r_payload (h r), kp_alg = a, kp_key_ops = []\<rparr>, h)),
         recipient_encrypt = (\<lambda>r a h. (Inr (), h)),
         recipient_encode = (\<lambda>r a h. (Inr (CArray [CBytes [], CMap [], CBytes (r_payload (h r))]), h)),
         create_recipient = (\<lambda>x ctx h.
            case x of
              CArray [CBytes ph, CMap uh, CBytes c] \<Rightarrow>
                (Inr (length c), h(length c := Recipient KeyWrap c))
            | _ \<Rightarrow> (Inl ValueError, h)),
         base_encrypt = (\<lambda>e. case key e of
                                None \<Rightarrow> Inl (CoseException ''no key'')
                              | Some ky \<Rightarrow> Inr (payload e @ k ky)),
         base_decrypt = (\<lambda>e. case key e of
                                None \<Rightarrow> Inl (CoseException ''no key'')
                              | Some ky \<Rightarrow> Inr (take (length (payload e) - length (k ky)) (payload e))),
         parse_header = (\<lambda>x. case x of CMap m \<Rightarrow> Inr m | CBytes bs \<Rightarrow> Inr [] | _ \<Rightarrow> Inl ValueError),
         phdr_encoded = (\<lambda>e. []),
         uhdr_encoded = (\<lambda>e. CMap (uhdr e)),
         base_encode = (\<lambda>message tag. Inr [])\<rparr>"

text \<open>
  A store with key wrap recipients without payload at 11 and 15, one with payload at
  12, a direct encryption recipient at 13, direct key agreement recipients at 14 and
  16, and objects that are no recipients everywhere else.
\<close>
definition h0 :: heap where
  "h0 = (\<lambda>a. if a = 11 then Recipient KeyWrap []
             else if a = 12 then Recipient KeyWrap [7, 7]
             else if a = 13 then Recipient DirectEncryption []
             else if a = 14 then Recipient DirectKeyAgreement [9]
             else if a = 15 then Recipient KeyWrap []
             else if a = 16 then Recipient DirectKeyAgreement [8]
             else Foreign)"

definition k0 :: symmetric_key where
  "k0 = \<lparr>k = [1, 2, 3], kp_alg = Some 1, kp_key_ops = [EncryptOp, DecryptOp]\<rparr>"

definition e0 :: "addr list \<Rightarrow> envelope" where
  "e0 rs = \<lparr>phdr = [], uhdr = [], payload = [104, 105], external_aad = [],
            key = Some k0, recipients = rs\<rparr>"

definition s0 :: "addr list \<Rightarrow> state" where
  "s0 rs = \<lparr>self = e0 rs, heap = h0, rng = 0, calls = []\<rparr>"

section \<open>Properties\<close>

subsection \<open>The \<open>recipients\<close> setter\<close>

lemma append_recipients_valid:
  "\<forall>r\<in>set rs. h r \<noteq> Foreign \<Longrightarrow>
   append_recipients h rs e = (Inr (), e\<lparr>recipients := recipients e @ rs\<rparr>)"
proof (induction rs arbitrary: e)
  case Nil
  then show ?case by simp
next
  case (Cons r rs)
  then obtain c p where "h r = Recipient c p" by (cases "h r") auto
  with Cons show ?case by simp
qed

lemma append_recipients_invalid:
  "\<forall>r\<in>set pre. h r \<noteq> Foreign \<Longrightarrow> h x = Foreign \<Longrightarrow>
   append_recipients h (pre @ x # post) e = (Inl TypeError, e\<lparr>recipients := recipients e @ pre\<rparr>)"
proof (induction pre arbitrary: e)
  case Nil
  then show ?case by simp
next
  case (Cons r pre)
  then obtain c p where "h r = Recipient c p" by (cases "h r") auto
  with Cons show ?case by simp
qed

lemma iterate_append_other:
  "i \<le> length xs \<Longrightarrow> iterate_append h (Some xs) i e = Some (append_recipients h (drop i xs) e)"
proof (induction "length xs - i" arbitrary: i e)
  case 0
  then show ?case by (subst iterate_append.simps) simp
next
  case (Suc n)
  then have lt: "i < length xs" by simp
  then have d: "drop i xs = xs ! i # drop (Suc i) xs" by (simp add: Cons_nth_drop_Suc)
  from Suc(2) lt have n: "n = length xs - Suc i" by simp
  show ?case
  proof (cases "h (xs ! i)")
    case Foreign
    with lt d show ?thesis by (subst iterate_append.simps) simp
  next
    case (Recipient c p)
    with lt d Suc(1) [OF n, of "e\<lparr>recipients := recipients e @ [xs ! i]\<rparr>"] show ?thesis
      by (subst iterate_append.simps) simp
  qed
qed

lemma iterate_append_stored_diverges_aux:
  assumes "iterate_append h other i e = Some y"
  shows "\<not> (other = None \<and> i < length (recipients e) \<and> (\<forall>r\<in>set (recipients e). h r \<noteq> Foreign))"
proof (rule iterate_append.raw_induct
    [where P = "\<lambda>h other i e y.
       \<not> (other = None \<and> i < length (recipients e) \<and> (\<forall>r\<in>set (recipients e). h r \<noteq> Foreign))",
     OF _ assms])
  fix f :: "heap \<Rightarrow> addr list option \<Rightarrow> nat \<Rightarrow> envelope \<Rightarrow> ((error + unit) \<times> envelope) option"
  fix h other i e y
  assume ih: "\<And>h other i e y. f h other i e = Some y \<Longrightarrow>
    \<not> (other = None \<and> i < length (recipients e) \<and> (\<forall>r\<in>set (recipients e). h r \<noteq> Foreign))"
  assume body: "(let xs = (case other of None \<Rightarrow> recipients e | Some ys \<Rightarrow> ys) in
      if i < length xs then
        (case h (xs ! i) of
           Foreign \<Rightarrow> Some (Inl TypeError, e)
         | Recipient c p \<Rightarrow> f h other (Suc i) (e\<lparr>recipients := recipients e @ [xs ! i]\<rparr>))
      else Some (Inr (), e)) = Some y"
  show "\<not> (other = None \<and> i < length (recipients e) \<and> (\<forall>r\<in>set (recipients e). h r \<noteq> Foreign))"
  proof
    assume a: "other = None \<and> i < length (recipients e) \<and> (\<forall>r\<in>set (recipients e). h r \<noteq> Foreign)"
    then obtain c p where o: "h (recipients e ! i) = Recipient c p"
      by (cases "h (recipients e ! i)") auto
    let ?e = "e\<lparr>recipients := recipients e @ [recipients e ! i]\<rparr>"
    from a o body have "f h other (Suc i) ?e = Some y" by (simp add: Let_def)
    from ih [OF this] a show False by auto
  qed
qed

lemma iterate_append_stored_diverges:
  "recipients e \<noteq> [] \<Longrightarrow> \<forall>r\<in>set (recipients e). h r \<noteq> Foreign \<Longrightarrow>
   iterate_append h None 0 e = None"
  using iterate_append_stored_diverges_aux [of h None 0 e]
  by (cases "iterate_append h None 0 e") auto

lemma iterate_append_stored_empty:
  "recipients e = [] \<Longrightarrow> iterate_append h None 0 e = Some (Inr (), e)"
  by (subst iterate_append.simps) simp

text \<open>
  Assigning the stored list object itself returns with the list unchanged when it is
  empty, and does not return when it is a non-empty list of recipient objects.
\<close>
lemma recipients_setter_stored:
  "\<forall>r\<in>set (recipients e). h r \<noteq> Foreign \<Longrightarrow>
   recipients_setter h StoredList e = (if recipients e = [] then Some (Inr (), e) else None)"
  by (simp add: recipients_setter_def iterate_append_stored_diverges iterate_append_stored_empty)

lemma recipients_setter_other:
  "recipients_setter h (OtherList xs) e = Some (set_recipients h (Some xs) e)
   \<and> recipients_setter h NoneValue e = Some (set_recipients h None e)"
  using iterate_append_other [of 0 xs h e]
  by (simp add: recipients_setter_def set_recipients_def)

text \<open>
  C10, as stated, fails: a message holds the list \<open>[11]\<close> of one recipient and is
  assigned its own stored list, a valid list; the setter appends to the list it
  iterates and never returns, so no stored list \<open>R1 @ R2\<close> results.
\<close>
theorem recipients_setter_alias_counterexample:
  "recipients_setter h0 StoredList (e0 [11]) = None
   \<and> recipients (e0 [11]) = [11] \<and> h0 11 = Recipient KeyWrap []"
proof -
  have "recipients (e0 [11]) \<noteq> []" and "\<forall>r\<in>set (recipients (e0 [11])). h0 r \<noteq> Foreign"
    by (simp_all add: e0_def h0_def)
  then show ?thesis
    by (simp add: recipients_setter_def iterate_append_stored_diverges e0_def h0_def)
qed

text \<open>
  C10, amended: the setter appends the validated elements to the stored list instead
  of replacing it. For a message that holds the list \<open>recipients e\<close>, assigning a list
  \<open>R2\<close> of recipient objects that is a list object other than the stored one leaves
  \<open>recipients e @ R2\<close>; assigning \<open>None\<close> resets the stored list to the empty list;
  and the constructor, whose stored list starts empty, yields exactly the list it is
  given.
\<close>
theorem recipients_setter_appends:
  assumes "\<forall>r\<in>set R2. h r \<noteq> Foreign"
  shows "recipients_setter h (OtherList R2) e = Some (Inr (), e\<lparr>recipients := recipients e @ R2\<rparr>)
       \<and> recipients_setter h NoneValue e = Some (Inr (), e\<lparr>recipients := []\<rparr>)
       \<and> (\<exists>msg. init h ph uh pl aad ky (Some R2) = Inr msg \<and> recipients msg = R2)"
  using assms iterate_append_other [of 0 R2 h e]
  by (auto simp: recipients_setter_def set_recipients_def init_def append_recipients_valid)

theorem recipients_setter_appends_witness:
  "recipients_setter h0 (OtherList [12, 13]) (e0 [11])
     = Some (Inr (), (e0 [11])\<lparr>recipients := [11, 12, 13]\<rparr>)
   \<and> recipients_setter h0 NoneValue (e0 [11]) = Some (Inr (), (e0 [11])\<lparr>recipients := []\<rparr>)
   \<and> (\<exists>msg. init h0 None None [] [] None (Some [12, 13]) = Inr msg \<and> recipients msg = [12, 13])"
proof -
  have v: "\<forall>r\<in>set [12, 13]. h0 r \<noteq> Foreign" by (simp add: h0_def)
  show ?thesis
    using recipients_setter_appends [OF v, of "e0 [11]" None None "[]" "[]" None]
    by (simp add: e0_def)
qed

text \<open>
  C2, as stated, fails: assigning \<open>[11, 9, 12]\<close>, whose second element is no recipient,
  to a message without recipients raises \<open>TypeError\<close> and leaves the stored list
  \<open>[11]\<close>, not the empty list it was.
\<close>
theorem set_recipients_partial_counterexample:
  "fst (set_recipients h0 (Some [11, 9, 12]) (e0 [])) = Inl TypeError
   \<and> recipients (snd (set_recipients h0 (Some [11, 9, 12]) (e0 []))) = [11]
   \<and> recipients (e0 []) = []"
  by (simp add: set_recipients_def h0_def e0_def)

text \<open>
  C2, amended: assigning a list fails with a type error at its first element that is
  not a \<open>CoseRecipient\<close>; the elements before it have been appended by then, so the
  stored list is the previous list followed by that valid prefix. The constructor fails
  with the same error and returns no message.
\<close>
theorem set_recipients_first_invalid:
  assumes "\<forall>r\<in>set pre. h r \<noteq> Foreign" and "h x = Foreign"
  shows "set_recipients h (Some (pre @ x # post)) e
           = (Inl TypeError, e\<lparr>recipients := recipients e @ pre\<rparr>)
       \<and> init h ph uh pl aad ky (Some (pre @ x # post)) = Inl TypeError"
  using assms by (simp add: set_recipients_def init_def append_recipients_invalid)

theorem set_recipients_first_invalid_witness:
  "set_recipients h0 (Some ([11, 12] @ 9 # [13])) (e0 [14])
     = (Inl TypeError, (e0 [14])\<lparr>recipients := recipients (e0 [14]) @ [11, 12]\<rparr>)
   \<and> recipients (snd (set_recipients h0 (Some ([11, 12] @ 9 # [13])) (e0 [14]))) = [14, 11, 12]
   \<and> init h0 None None [] [] None (Some ([11, 12] @ 9 # [13])) = Inl TypeError"
proof -
  have v: "\<forall>r\<in>set [11, 12]. h0 r \<noteq> Foreign" by (simp add: h0_def)
  have f: "h0 9 = Foreign" by (simp add: h0_def)
  show ?thesis
    using set_recipients_first_invalid [OF v f, of "[13]" "e0 [14]" None None "[]" "[]" None]
    by (simp add: e0_def)
qed

subsection \<open>Decoding\<close>

lemma base_from_cose_obj_three:
  "parse_header C p = Inr ph \<Longrightarrow> parse_header C u = Inr uh \<Longrightarrow>
   base_from_cose_obj C h (p # u # CBytes c # rest)
     = Inr (\<lparr>phdr = ph, uhdr = uh, payload = c, external_aad = [], key = None, recipients = []\<rparr>, rest)"
  by (simp add: base_from_cose_obj_def init_def set_recipients_def)

lemma from_cose_obj_three:
  assumes "parse_header C p = Inr ph" and "parse_header C u = Inr uh"
  shows "from_cose_obj C [p, u, CBytes c] h
           = (Inr \<lparr>phdr = ph, uhdr = uh, payload = c, external_aad = [], key = None,
                    recipients = []\<rparr>, h)"
  using assms
  by (simp add: from_cose_obj_def base_from_cose_obj_three try_recipients_def set_recipients_def)

text \<open>
  C6: when the array has no fourth element, so that popping it raises \<open>IndexError\<close>,
  decoding raises nothing and returns the message with the empty recipient list (the
  base three-element parse having succeeded).
\<close>
theorem from_cose_obj_without_recipients:
  assumes "parse_header C p = Inr ph" and "parse_header C u = Inr uh"
  shows "from_cose_obj C [p, u, CBytes c] h
           = (Inr \<lparr>phdr = ph, uhdr = uh, payload = c, external_aad = [], key = None,
                    recipients = []\<rparr>, h)"
  using assms by (rule from_cose_obj_three)

theorem from_cose_obj_without_recipients_witness:
  "from_cose_obj C0 [CBytes [], CMap [], CBytes [1, 2]] h0
     = (Inr \<lparr>phdr = [], uhdr = [], payload = [1, 2], external_aad = [], key = None,
              recipients = []\<rparr>, h0)"
proof -
  have p: "parse_header C0 (CBytes []) = Inr []" by (simp add: C0_def)
  have u: "parse_header C0 (CMap []) = Inr []" by (simp add: C0_def)
  show ?thesis using from_cose_obj_without_recipients [OF p u] by simp
qed




subsection \<open>Decryption with a recipient that is not attached\<close>

text \<open>
  C4: when the lookup does not find the supplied recipient in the message's own
  recipient list, \<open>decrypt\<close> fails with the recipient-not-found error and leaves the
  whole state as it was: no key derivation and no AEAD step has been called, and the
  message's key is not modified.
\<close>
theorem decrypt_recipient_not_found:
  assumes "\<not> has_recipient C recipient (recipients (self s)) (heap s)"
  shows "decrypt C recipient s
           = (Inl (CoseException (''Cannot find recipient: '' @ obj_repr C (heap s recipient))), s)"
  using assms by (simp add: decrypt_def)

theorem decrypt_recipient_not_found_witness:
  "decrypt C0 12 (s0 [11])
     = (Inl (CoseException (''Cannot find recipient: '' @ obj_repr C0 (heap (s0 [11]) 12))), s0 [11])
   \<and> key (self (snd (decrypt C0 12 (s0 [11])))) = Some k0
   \<and> calls (snd (decrypt C0 12 (s0 [11]))) = []"
proof -
  have n: "\<not> has_recipient C0 12 (recipients (self (s0 [11]))) (heap (s0 [11]))"
    by (simp add: C0_def contains_def s0_def e0_def)
  show ?thesis using decrypt_recipient_not_found [OF n] by (simp add: s0_def e0_def)
qed

subsection \<open>Direct key agreement\<close>

text \<open>
  C9: when the classification contains \<open>DirectKeyAgreement\<close> (and not
  \<open>DirectEncryption\<close>), \<open>encrypt\<close> calls the key agreement of the first recipient
  with the message's algorithm and mode \<open>encrypt\<close>, stores its result as the key and
  runs the AEAD step with it; these are the only two calls it makes, so no other
  recipient is consulted. When the key agreement raises, the error is the outcome and
  that call is the only one.
\<close>
theorem encrypt_direct_key_agreement:
  assumes "verify_recipients C (recipients (self s)) (heap s) = Inr T"
    and "DirectEncryption \<notin> T" and "DirectKeyAgreement \<in> T"
    and "recipients (self s) = r0 # rest"
  shows "case compute_cek C r0 (get_attr C (self s)) ''encrypt'' (heap s) of
           (Inr cek, h) \<Rightarrow>
             encrypt C s
               = (base_encrypt C ((self s)\<lparr>key := Some cek\<rparr>),
                  s\<lparr>self := (self s)\<lparr>key := Some cek\<rparr>, heap := h,
                    calls := calls s @ [ComputeCek r0 (get_attr C (self s)) ''encrypt'',
                                        AeadSeal (Some cek)]\<rparr>)
         | (Inl err, h) \<Rightarrow>
             encrypt C s
               = (Inl err,
                  s\<lparr>heap := h,
                    calls := calls s @ [ComputeCek r0 (get_attr C (self s)) ''encrypt'']\<rparr>)"
  using assms by (simp add: encrypt_def seal_def split: prod.splits sum.splits)

theorem encrypt_direct_key_agreement_witness:
  "encrypt C0 (s0 [14, 16])
     = (Inr [104, 105, 9],
        \<lparr>self = (e0 [14, 16])\<lparr>key := Some \<lparr>k = [9], kp_alg = Some 1, kp_key_ops = []\<rparr>\<rparr>,
          heap = h0, rng = 0,
          calls = [ComputeCek 14 (Some 1) ''encrypt'',
                    AeadSeal (Some \<lparr>k = [9], kp_alg = Some 1, kp_key_ops = []\<rparr>)]\<rparr>)"
proof -
  have v: "verify_recipients C0 (recipients (self (s0 [14, 16]))) (heap (s0 [14, 16]))
             = Inr {DirectKeyAgreement}"
    by (simp add: C0_def s0_def e0_def classify_def h0_def)
  have r: "recipients (self (s0 [14, 16])) = 14 # [16]" by (simp add: s0_def e0_def)
  have "compute_cek C0 14 (get_attr C0 (self (s0 [14, 16]))) ''encrypt'' (heap (s0 [14, 16]))
         = (Inr \<lparr>k = [9], kp_alg = Some 1, kp_key_ops = []\<rparr>, h0)"
    by (simp add: C0_def s0_def h0_def)
  with encrypt_direct_key_agreement [OF v _ _ r] show ?thesis
    by (simp add: C0_def s0_def e0_def)
qed

subsection \<open>Mixed recipient classes\<close>

lemma classify_mixed:
  assumes "d \<in> set rs" and "h d = Recipient DirectEncryption pd"
    and "w \<in> set rs" and "h w = Recipient KeyWrap pw"
  shows "classify rs h = Inl (CoseException ''Unsupported COSE recipient class'')"
proof (cases rs)
  case Nil
  with assms show ?thesis by simp
next
  case (Cons r rest)
  show ?thesis
  proof (cases "h r")
    case Foreign
    with Cons show ?thesis by (simp add: classify_def)
  next
    case (Recipient c p)
    have "\<not> list_all (\<lambda>ob. case ob of Foreign \<Rightarrow> False | Recipient c1 p1 \<Rightarrow> c1 = c) (map h rest)"
    proof
      assume a: "list_all (\<lambda>ob. case ob of Foreign \<Rightarrow> False | Recipient c1 p1 \<Rightarrow> c1 = c) (map h rest)"
      have same: "r_class (h x) = c" if "x \<in> set rs" for x
      proof (cases "x = r")
        case True
        with Recipient show ?thesis by simp
      next
        case False
        with that Cons have "x \<in> set rest" by simp
        with a have "case h x of Foreign \<Rightarrow> False | Recipient c1 p1 \<Rightarrow> c1 = c"
          by (simp add: list_all_iff)
        then show ?thesis by (cases "h x") auto
      qed
      from same [OF assms(1)] same [OF assms(3)] assms(2,4) show False by simp
    qed
    with Cons Recipient show ?thesis by (simp add: classify_def)
  qed
qed

text \<open>
  C3: with the classification the spec describes, a message whose recipient list holds
  a \<open>DirectEncryption\<close> recipient and a \<open>KeyWrap\<close> recipient makes \<open>encrypt\<close> fail
  with the Unsupported Recipient Class error; the state is left as it was, so no key
  was established and the AEAD step never ran: there is no ciphertext.
\<close>
theorem encrypt_mixed_recipients:
  assumes "verify_recipients C = classify"
    and "d \<in> set (recipients (self s))" and "heap s d = Recipient DirectEncryption pd"
    and "w \<in> set (recipients (self s))" and "heap s w = Recipient KeyWrap pw"
  shows "encrypt C s = (Inl (CoseException ''Unsupported COSE recipient class''), s)"
  using assms classify_mixed [of d "recipients (self s)" "heap s" pd w pw]
  by (simp add: encrypt_def)

theorem encrypt_mixed_recipients_witness:
  "encrypt C0 (s0 [13, 11]) = (Inl (CoseException ''Unsupported COSE recipient class''), s0 [13, 11])
   \<and> calls (snd (encrypt C0 (s0 [13, 11]))) = []"
proof -
  have v: "verify_recipients C0 = classify" by (simp add: C0_def)
  have d: "13 \<in> set (recipients (self (s0 [13, 11])))" by (simp add: s0_def e0_def)
  have hd: "heap (s0 [13, 11]) 13 = Recipient DirectEncryption []" by (simp add: s0_def h0_def)
  have w: "11 \<in> set (recipients (self (s0 [13, 11])))" by (simp add: s0_def e0_def)
  have hw: "heap (s0 [13, 11]) 11 = Recipient KeyWrap []" by (simp add: s0_def h0_def)
  show ?thesis using encrypt_mixed_recipients [OF v d hd w hw] by (simp add: s0_def)
qed

subsection \<open>The key wrap pass\<close>

lemma wrap_pass_self: "wrap_pass C target rs kb s = (res, s') \<Longrightarrow> self s' = self s"
proof (induction rs arbitrary: kb s)
  case Nil
  then show ?case by simp
next
  case (Cons r rs)
  show ?case
  proof (cases "heap s r")
    case Foreign
    with Cons.prems show ?thesis by simp
  next
    case (Recipient c p)
    with Cons.prems show ?thesis
      by (auto simp: Let_def split: prod.splits sum.splits if_splits dest!: Cons.IH)
  qed
qed

lemma wrap_pass_refines:
  "wrap_pass C target rs kb s = (Inr kb', s') \<Longrightarrow>
   key_wrap_spec C target rs kb (heap s) = (evs, kb2, h3) \<Longrightarrow>
   kb' = kb2 \<and> heap s' = h3 \<and> calls s' = calls s @ evs \<and> self s' = self s \<and> rng s' = rng s"
proof (induction rs arbitrary: kb s evs kb2 h3)
  case Nil
  then show ?case by simp
next
  case (Cons r rs)
  from Cons.prems(1) obtain c p where obj: "heap s r = Recipient c p"
    by (cases "heap s r") auto
  define kb1 where "kb1 = settle kb p"
  define h1 where "h1 = (heap s)(r := Recipient c kb1)"
  define s2 where "s2 = s\<lparr>heap := h1, calls := calls s @ [RecipientEncrypt r target kb1]\<rparr>"
  have h1_eq: "p \<noteq> [] \<Longrightarrow> h1 = heap s"
    using obj by (auto simp: h1_def kb1_def settle_def)
  obtain res h2 where w: "recipient_encrypt C r target h1 = (res, h2)"
    by (cases "recipient_encrypt C r target h1")
  have step: "wrap_pass C target (r # rs) kb s
                = (case res of Inl err \<Rightarrow> (Inl err, s2\<lparr>heap := h2\<rparr>)
                   | Inr u \<Rightarrow> wrap_pass C target rs kb1 (s2\<lparr>heap := h2\<rparr>))"
  proof (cases "p = []")
    case True
    then show ?thesis using obj w
      by (cases res) (simp_all add: s2_def h1_def kb1_def settle_def)
  next
    case False
    then have "s\<lparr>calls := calls s @ [RecipientEncrypt r target p]\<rparr> = s2"
      using h1_eq by (simp add: s2_def kb1_def settle_def)
    then show ?thesis using False obj w h1_eq
      by (cases res) (simp_all add: kb1_def settle_def)
  qed
  with Cons.prems(1) obtain u where res: "res = Inr u"
    and rest: "wrap_pass C target rs kb1 (s2\<lparr>heap := h2\<rparr>) = (Inr kb', s')"
    by (cases res) auto
  obtain evs1 kbf hf where sp: "key_wrap_spec C target rs kb1 h2 = (evs1, kbf, hf)"
    by (cases "key_wrap_spec C target rs kb1 h2") auto
  have "key_wrap_spec C target (r # rs) kb (heap s) = (RecipientEncrypt r target kb1 # evs1, kbf, hf)"
    using obj w sp by (simp add: Let_def kb1_def h1_def)
  with Cons.prems(2) have e: "evs = RecipientEncrypt r target kb1 # evs1" "kb2 = kbf" "h3 = hf"
    by simp_all
  from Cons.IH [OF rest, of evs1 kbf hf] sp
  have "kb' = kbf \<and> heap s' = hf \<and> calls s' = calls (s2\<lparr>heap := h2\<rparr>) @ evs1
        \<and> self s' = self (s2\<lparr>heap := h2\<rparr>) \<and> rng s' = rng (s2\<lparr>heap := h2\<rparr>)"
    by simp
  with e show ?case by (simp add: s2_def)
qed

lemma key_wrap_spec_requests:
  "key_wrap_spec C target rs kb h = (evs, kb2, h3) \<Longrightarrow> length evs = length rs"
  by (induction rs arbitrary: kb h evs) (auto simp: Let_def split: prod.splits)

text \<open>
  With recipients that are distinct objects and whose wrap step leaves the store alone,
  the finally settled bytes are the generated key overridden, in list order, by every
  non-empty carrier payload the recipients held before the pass.
\<close>
lemma key_wrap_spec_settled:
  assumes frame: "\<forall>r h. snd (recipient_encrypt C r target h) = h"
    and "distinct rs"
    and "key_wrap_spec C target rs kb h = (evs, kb2, h3)"
  shows "kb2 = foldl settle kb (map (\<lambda>r. r_payload (h r)) rs)"
  using assms(2,3)
proof (induction rs arbitrary: kb h evs)
  case Nil
  then show ?case by simp
next
  case (Cons r rs)
  let ?kb1 = "settle kb (r_payload (h r))"
  let ?h1 = "h(r := Recipient (r_class (h r)) ?kb1)"
  obtain evs1 where sp: "key_wrap_spec C target rs ?kb1 ?h1 = (evs1, kb2, h3)"
    using Cons.prems(2) frame by (auto simp: Let_def split: prod.splits)
  from Cons.prems(1) have d: "distinct rs" and n: "r \<notin> set rs" by simp_all
  have eq: "map (\<lambda>x. r_payload (?h1 x)) rs = map (\<lambda>x. r_payload (h x)) rs"
    using n by (intro map_cong) auto
  from Cons.IH [OF d sp] have "kb2 = foldl settle ?kb1 (map (\<lambda>x. r_payload (?h1 x)) rs)" .
  then have "kb2 = foldl settle ?kb1 (map (\<lambda>x. r_payload (h x)) rs)"
    by (simp only: eq)
  then show ?case by simp
qed

text \<open>
  C1: when the classification contains \<open>KeyWrap\<close> or \<open>KeyAgreementWithKeyWrap\<close>
  (and neither \<open>DirectEncryption\<close> nor \<open>DirectKeyAgreement\<close>) and \<open>encrypt\<close>
  returns, it has drawn one random key of the algorithm's key length from the entropy
  source, which has advanced by exactly that many bytes, made the single
  left-to-right pass that the spec describes (\<open>key_wrap_spec\<close>: a recipient with an
  empty carrier payload is given the current key bytes, a non-empty carrier payload
  replaces them for the recipients that follow, and each recipient is asked to wrap the
  settled bytes it then carries), stored the finally settled bytes as the key of the
  message, and sealed with that key: the log is the draw, one wrap request per
  recipient, and the AEAD step.
\<close>
theorem encrypt_key_wrap_pass:
  assumes alg: "get_attr C (self s) = Some a"
    and cls: "verify_recipients C (recipients (self s)) (heap s) = Inr T"
      "DirectEncryption \<notin> T" "DirectKeyAgreement \<notin> T"
      "KeyWrap \<in> T \<or> KeyAgreementWithKeyWrap \<in> T"
    and ret: "encrypt C s = (Inr ct, s')"
  shows "let key_bytes = map (entropy C) [rng s ..< rng s + get_key_length C a];
             (requests, settled, h) =
                key_wrap_spec C (Some a) (recipients (self s)) key_bytes (heap s);
             cek = \<lparr>k = settled, kp_alg = Some a, kp_key_ops = [EncryptOp]\<rparr>
         in length key_bytes = get_key_length C a
          \<and> length requests = length (recipients (self s))
          \<and> rng s' = rng s + get_key_length C a
          \<and> calls s' = calls s @ [Urandom (get_key_length C a)] @ requests @ [AeadSeal (Some cek)]
          \<and> heap s' = h
          \<and> self s' = (self s)\<lparr>key := Some cek\<rparr>
          \<and> base_encrypt C (self s') = Inr ct"
proof -
  define n where "n = get_key_length C a"
  define key_bytes where "key_bytes = map (entropy C) [rng s ..< rng s + n]"
  define s1 where "s1 = s\<lparr>rng := rng s + n, calls := calls s @ [Urandom n]\<rparr>"
  have u: "urandom C n s = (key_bytes, s1)"
    by (simp add: urandom_def key_bytes_def s1_def)
  obtain res s2 where wp: "wrap_pass C (Some a) (recipients (self s)) key_bytes s1 = (res, s2)"
    by (cases "wrap_pass C (Some a) (recipients (self s)) key_bytes s1")
  have enc: "encrypt C s
               = (case res of Inl err \<Rightarrow> (Inl err, s2)
                  | Inr kb1 \<Rightarrow> seal C (s2\<lparr>self := (self s2)\<lparr>key :=
                       Some \<lparr>k = kb1, kp_alg = Some a, kp_key_ops = [EncryptOp]\<rparr>\<rparr>\<rparr>))"
    using alg cls u wp by (simp add: encrypt_def n_def s1_def del: wrap_pass.simps)
  with ret obtain kb1 where res: "res = Inr kb1" by (cases res) auto
  obtain requests settled h where
    sp: "key_wrap_spec C (Some a) (recipients (self s)) key_bytes (heap s) = (requests, settled, h)"
    by (cases "key_wrap_spec C (Some a) (recipients (self s)) key_bytes (heap s)") auto
  have "heap s1 = heap s" by (simp add: s1_def)
  with wrap_pass_refines [of C "Some a" "recipients (self s)" key_bytes s1 kb1 s2 requests settled h]
    wp res sp
  have r: "kb1 = settled" "heap s2 = h" "calls s2 = calls s1 @ requests" "self s2 = self s1"
    "rng s2 = rng s1"
    by simp_all
  from enc res ret r have
    "s' = s2\<lparr>self := (self s)\<lparr>key := Some \<lparr>k = settled, kp_alg = Some a, kp_key_ops = [EncryptOp]\<rparr>\<rparr>,
            calls := calls s @ [Urandom n] @ requests
                     @ [AeadSeal (Some \<lparr>k = settled, kp_alg = Some a, kp_key_ops = [EncryptOp]\<rparr>)]\<rparr>"
    and "base_encrypt C ((self s)\<lparr>key := Some \<lparr>k = settled, kp_alg = Some a, kp_key_ops = [EncryptOp]\<rparr>\<rparr>) = Inr ct"
    by (auto simp: seal_def s1_def)
  with r sp key_wrap_spec_requests [OF sp] show ?thesis
    by (simp add: Let_def key_bytes_def n_def s1_def)
qed

theorem encrypt_key_wrap_pass_witness:
  "fst (encrypt C0 (s0 [11, 12, 15])) = Inr [104, 105, 7, 7]
   \<and> rng (snd (encrypt C0 (s0 [11, 12, 15]))) = 16
   \<and> calls (snd (encrypt C0 (s0 [11, 12, 15])))
       = [Urandom 16,
          RecipientEncrypt 11 (Some 1) (map of_nat [0..<16]),
          RecipientEncrypt 12 (Some 1) [7, 7],
          RecipientEncrypt 15 (Some 1) [7, 7],
          AeadSeal (Some \<lparr>k = [7, 7], kp_alg = Some 1, kp_key_ops = [EncryptOp]\<rparr>)]
   \<and> key (self (snd (encrypt C0 (s0 [11, 12, 15]))))
       = Some \<lparr>k = [7, 7], kp_alg = Some 1, kp_key_ops = [EncryptOp]\<rparr>
   \<and> heap (snd (encrypt C0 (s0 [11, 12, 15]))) 11 = Recipient KeyWrap (map of_nat [0..<16])
   \<and> heap (snd (encrypt C0 (s0 [11, 12, 15]))) 15 = Recipient KeyWrap [7, 7]"
proof -
  let ?s = "s0 [11, 12, 15]"
  have alg: "get_attr C0 (self ?s) = Some 1" by (simp add: C0_def)
  have cls: "verify_recipients C0 (recipients (self ?s)) (heap ?s) = Inr {KeyWrap}"
    by (simp add: C0_def s0_def e0_def classify_def h0_def)
  have f: "fst (encrypt C0 ?s) = Inr [104, 105, 7, 7]"
    by (simp add: encrypt_def urandom_def seal_def C0_def s0_def e0_def classify_def h0_def Let_def)
  then have ret: "encrypt C0 ?s = (Inr [104, 105, 7, 7], snd (encrypt C0 ?s))"
    by (simp add: prod_eq_iff)
  have sp: "key_wrap_spec C0 (Some 1) [11, 12, 15] (map of_nat [0..<16]) h0
              = ([RecipientEncrypt 11 (Some 1) (map of_nat [0..<16]),
                  RecipientEncrypt 12 (Some 1) [7, 7],
                  RecipientEncrypt 15 (Some 1) [7, 7]], [7, 7],
                 h0(11 := Recipient KeyWrap (map of_nat [0..<16]), 12 := Recipient KeyWrap [7, 7],
                    15 := Recipient KeyWrap [7, 7]))"
    by (simp add: C0_def h0_def settle_def Let_def)
  have g: "get_key_length C0 1 = 16" "entropy C0 = of_nat" "rng ?s = 0" "heap ?s = h0"
    "recipients (self ?s) = [11, 12, 15]" "calls ?s = []"
    by (simp_all add: C0_def s0_def e0_def fun_eq_iff)
  show ?thesis
    using encrypt_key_wrap_pass [OF alg cls _ _ _ ret] f
    by (simp add: g sp Let_def del: key_wrap_spec.simps)
qed

subsection \<open>The key after a call\<close>




subsection \<open>Encoding, and decoding what was encoded\<close>

lemma encrypt_recipients: "recipients (self (snd (encrypt C s))) = recipients (self s)"
  by (auto simp: encrypt_def seal_def urandom_def Let_def simp del: wrap_pass.simps
      split: prod.splits sum.splits list.splits option.splits dest!: wrap_pass_self)

lemma encode_recipients_in_order:
  "encode_recipients C target rs s = (Inr xs, s') \<Longrightarrow>
   self s' = self s \<and> length xs = length rs
   \<and> encoded_in_order C target rs (heap s) xs (heap s')"
proof (induction rs arbitrary: s xs s')
  case Nil
  then show ?case by simp
next
  case (Cons r rs)
  let ?s1 = "s\<lparr>calls := calls s @ [RecipientEncode r target]\<rparr>"
  obtain res h where e: "recipient_encode C r target (heap s) = (res, h)"
    by (cases "recipient_encode C r target (heap s)")
  with Cons.prems obtain x where res: "res = Inr x"
    by (cases res) (auto simp: Let_def)
  obtain res2 s2 where t: "encode_recipients C target rs (?s1\<lparr>heap := h\<rparr>) = (res2, s2)"
    by (cases "encode_recipients C target rs (?s1\<lparr>heap := h\<rparr>)")
  with Cons.prems e res obtain ys where res2: "res2 = Inr ys" and xs: "xs = x # ys" and s': "s' = s2"
    by (cases res2) (auto simp: Let_def)
  from t res2 have "encode_recipients C target rs (?s1\<lparr>heap := h\<rparr>) = (Inr ys, s2)"
    by simp
  from Cons.IH [OF this]
  have "self s2 = self s" and "length ys = length rs"
    and "encoded_in_order C target rs h ys (heap s2)"
    by simp_all
  with e res xs s' show ?case by simp
qed

lemma create_recipients_length:
  "create_recipients C xs h = (Inr rs, h1) \<Longrightarrow> length rs = length xs"
  by (induction xs arbitrary: h rs) (auto split: prod.splits sum.splits)

lemma from_cose_obj_with_recipients:
  assumes "parse_header C p = Inr ph" and "parse_header C u = Inr uh"
    and "create_recipients C xs h = (Inr rs, h1)" and "\<forall>r\<in>set rs. h1 r \<noteq> Foreign"
  shows "from_cose_obj C [p, u, CBytes c, CArray xs] h
           = (Inr \<lparr>phdr = ph, uhdr = uh, payload = c, external_aad = [], key = None,
                    recipients = rs\<rparr>, h1)"
  using assms
  by (simp add: from_cose_obj_def base_from_cose_obj_three try_recipients_def set_recipients_def
      append_recipients_valid)

lemma encode_message_exact:
  assumes "encode_message C do_encrypt s = (Inr message, s1)"
  shows "\<exists>body. (if do_encrypt then fst (encrypt C s) else Inr (payload (self s))) = Inr body
          \<and> ((recipients (self s) = []
               \<and> message = [CBytes (phdr_encoded C (self s)), uhdr_encoded C (self s), CBytes body]
               \<and> s1 = (if do_encrypt then snd (encrypt C s) else s))
            \<or> (recipients (self s) \<noteq> []
               \<and> (\<exists>xs. message = [CBytes (phdr_encoded C (self s)), uhdr_encoded C (self s),
                               CBytes body, CArray xs]
                  \<and> encode_recipients C
                       (get_attr C (self (if do_encrypt then snd (encrypt C s) else s)))
                       (recipients (self s)) (if do_encrypt then snd (encrypt C s) else s)
                     = (Inr xs, s1))))"
proof -
  let ?mid = "if do_encrypt then snd (encrypt C s) else s"
  let ?res = "if do_encrypt then fst (encrypt C s) else Inr (payload (self s))"
  have b: "(if do_encrypt then encrypt C s else (Inr (payload (self s)), s)) = (?res, ?mid)"
    by simp
  then have rs: "recipients (self ?mid) = recipients (self s)"
    using encrypt_recipients [of C s] by (auto split: if_splits)
  obtain res where r: "?res = res" by simp
  from assms b r obtain body where res: "res = Inr body"
    by (cases res) (auto simp: encode_message_def Let_def)
  from r res have bd: "?res = Inr body" by simp
  show ?thesis
  proof (cases "recipients (self s) = []")
    case True
    with assms b rs bd show ?thesis by (auto simp: encode_message_def Let_def)
  next
    case False
    obtain res3 s3 where
      e: "encode_recipients C (get_attr C (self ?mid)) (recipients (self ?mid)) ?mid = (res3, s3)"
      by (cases "encode_recipients C (get_attr C (self ?mid)) (recipients (self ?mid)) ?mid")
    with assms b bd rs False obtain xs where res3: "res3 = Inr xs" and s1: "s1 = s3"
      and m: "message = [CBytes (phdr_encoded C (self s)), uhdr_encoded C (self s), CBytes body, CArray xs]"
      by (cases res3) (auto simp: encode_message_def Let_def)
    from e res3 s1 rs have
      "encode_recipients C (get_attr C (self ?mid)) (recipients (self s)) ?mid = (Inr xs, s1)"
      by simp
    with False m bd show ?thesis by blast
  qed
qed

text \<open>
  C8: when encoding succeeds, the array that \<open>encode\<close> hands to the base encoder
  starts with the two header encodings and the ciphertext (or the payload, when not
  encrypting); it has three elements for a message without recipients and four
  elements for a message with \<open>N\<close> recipients, the fourth being the list of the \<open>N\<close>
  recipients' own encodings, in the order of the recipient list, each taken with the
  algorithm attribute of the message in the state that encryption left. Decoding such
  an array, where the header elements parse and the factory rebuilds every recipient
  structure as a recipient object, gives a message whose recipient list has as many
  elements as the encoded message had.
\<close>
theorem encode_decode_recipients:
  assumes "encode_message C do_encrypt s = (Inr message, s1)"
  shows "let mid = (if do_encrypt then snd (encrypt C s) else s);
             target = get_attr C (self mid)
         in length message = (if recipients (self s) = [] then 3 else 4)
          \<and> (\<exists>body. (if do_encrypt then fst (encrypt C s) else Inr (payload (self s))) = Inr body
                \<and> take 3 message
                    = [CBytes (phdr_encoded C (self s)), uhdr_encoded C (self s), CBytes body])
          \<and> (recipients (self s) = [] \<longrightarrow> s1 = mid)
          \<and> (recipients (self s) \<noteq> [] \<longrightarrow>
               (\<exists>xs. drop 3 message = [CArray xs]
                   \<and> length xs = length (recipients (self s))
                   \<and> encode_recipients C target (recipients (self s)) mid = (Inr xs, s1)
                   \<and> encoded_in_order C target (recipients (self s)) (heap mid) xs (heap s1)))
          \<and> encode C tag do_encrypt s = (base_encode C message tag, s1)
          \<and> (\<forall>h ph uh.
                parse_header C (message ! 0) = Inr ph \<longrightarrow>
                parse_header C (message ! 1) = Inr uh \<longrightarrow>
                (\<forall>xs. drop 3 message = [CArray xs] \<longrightarrow>
                   (\<exists>rs h1. create_recipients C xs h = (Inr rs, h1) \<and> (\<forall>r\<in>set rs. h1 r \<noteq> Foreign))) \<longrightarrow>
                (\<exists>msg h2. from_cose_obj C message h = (Inr msg, h2)
                        \<and> length (recipients msg) = length (recipients (self s))))"
proof -
  let ?mid = "if do_encrypt then snd (encrypt C s) else s"
  let ?target = "get_attr C (self ?mid)"
  have enc: "encode C tag do_encrypt s = (base_encode C message tag, s1)"
    using assms by (simp add: encode_def)
  from encode_message_exact [OF assms] obtain body where
    bd: "(if do_encrypt then fst (encrypt C s) else Inr (payload (self s))) = Inr body"
    and shape: "(recipients (self s) = []
               \<and> message = [CBytes (phdr_encoded C (self s)), uhdr_encoded C (self s), CBytes body]
               \<and> s1 = ?mid)
            \<or> (recipients (self s) \<noteq> []
               \<and> (\<exists>xs. message = [CBytes (phdr_encoded C (self s)), uhdr_encoded C (self s),
                               CBytes body, CArray xs]
                  \<and> encode_recipients C ?target (recipients (self s)) ?mid = (Inr xs, s1)))"
    by blast
  from shape show ?thesis
  proof
    assume a: "recipients (self s) = []
               \<and> message = [CBytes (phdr_encoded C (self s)), uhdr_encoded C (self s), CBytes body]
               \<and> s1 = ?mid"
    with bd enc show ?thesis
      by (simp add: Let_def from_cose_obj_three del: encode_recipients.simps)
  next
    assume "recipients (self s) \<noteq> []
               \<and> (\<exists>xs. message = [CBytes (phdr_encoded C (self s)), uhdr_encoded C (self s),
                               CBytes body, CArray xs]
                  \<and> encode_recipients C ?target (recipients (self s)) ?mid = (Inr xs, s1))"
    then obtain xs where ne: "recipients (self s) \<noteq> []"
      and m: "message = [CBytes (phdr_encoded C (self s)), uhdr_encoded C (self s), CBytes body, CArray xs]"
      and er: "encode_recipients C ?target (recipients (self s)) ?mid = (Inr xs, s1)"
      by blast
    from encode_recipients_in_order [OF er]
    have len: "length xs = length (recipients (self s))"
      and ord: "encoded_in_order C ?target (recipients (self s)) (heap ?mid) xs (heap s1)"
      by simp_all
    have dec: "\<exists>msg h2. from_cose_obj C message h = (Inr msg, h2)
                  \<and> length (recipients msg) = length (recipients (self s))"
      if p: "parse_header C (message ! 0) = Inr ph" and u: "parse_header C (message ! 1) = Inr uh"
        and f: "\<exists>rs h1. create_recipients C xs h = (Inr rs, h1) \<and> (\<forall>r\<in>set rs. h1 r \<noteq> Foreign)"
      for h ph uh
    proof -
      from f obtain rs h1 where c: "create_recipients C xs h = (Inr rs, h1)"
        and v: "\<forall>r\<in>set rs. h1 r \<noteq> Foreign" by blast
      from p u m have p': "parse_header C (CBytes (phdr_encoded C (self s))) = Inr ph"
        and u': "parse_header C (uhdr_encoded C (self s)) = Inr uh" by simp_all
      from from_cose_obj_with_recipients [OF p' u' c v, of body] m
        create_recipients_length [OF c] len
      show ?thesis by simp
    qed
    have "length message = 4" and "take 3 message
        = [CBytes (phdr_encoded C (self s)), uhdr_encoded C (self s), CBytes body]"
      and "drop 3 message = [CArray xs]"
      using m by simp_all
    with ne bd enc er len ord dec show ?thesis
      unfolding Let_def by (intro conjI impI allI) (simp_all del: encode_recipients.simps)
  qed
qed

theorem encode_decode_recipients_witness:
  "fst (encode_message C0 True (s0 [11, 12]))
     = Inr [CBytes [], CMap [], CBytes [104, 105, 7, 7],
            CArray [CArray [CBytes [], CMap [], CBytes (map of_nat [0..<16])],
                    CArray [CBytes [], CMap [], CBytes [7, 7]]]]
   \<and> (\<exists>msg h2. from_cose_obj C0 [CBytes [], CMap [], CBytes [104, 105, 7, 7],
            CArray [CArray [CBytes [], CMap [], CBytes (map of_nat [0..<16])],
                    CArray [CBytes [], CMap [], CBytes [7, 7]]]] h0 = (Inr msg, h2)
          \<and> length (recipients msg) = 2)
   \<and> fst (encode C0 True True (s0 [11, 12])) = Inr []
   \<and> fst (encode_message C0 False (s0 [11, 12]))
     = Inr [CBytes [], CMap [], CBytes [104, 105],
            CArray [CArray [CBytes [], CMap [], CBytes []],
                    CArray [CBytes [], CMap [], CBytes [7, 7]]]]
   \<and> fst (encode_message C0 False (s0 [])) = Inr [CBytes [], CMap [], CBytes [104, 105]]
   \<and> (\<exists>msg h2. from_cose_obj C0 [CBytes [], CMap [], CBytes [104, 105]] h0 = (Inr msg, h2)
          \<and> length (recipients msg) = 0)"
proof -
  let ?kb = "map of_nat [0..<16] :: bytes"
  let ?M4 = "[CBytes [], CMap [], CBytes [104, 105, 7, 7],
            CArray [CArray [CBytes [], CMap [], CBytes ?kb],
                    CArray [CBytes [], CMap [], CBytes [7, 7]]]]"
  let ?M3 = "[CBytes [], CMap [], CBytes [104, 105]]"
  have f4: "fst (encode_message C0 True (s0 [11, 12])) = Inr ?M4"
    by (simp add: encode_message_def encrypt_def urandom_def seal_def classify_def
        C0_def s0_def e0_def h0_def Let_def)
  then have e4: "encode_message C0 True (s0 [11, 12])
                   = (Inr ?M4, snd (encode_message C0 True (s0 [11, 12])))"
    by (simp add: prod_eq_iff)
  have g4: "fst (encode_message C0 False (s0 [11, 12]))
     = Inr [CBytes [], CMap [], CBytes [104, 105],
            CArray [CArray [CBytes [], CMap [], CBytes []],
                    CArray [CBytes [], CMap [], CBytes [7, 7]]]]"
    by (simp add: encode_message_def C0_def s0_def e0_def h0_def Let_def)
  have f3: "fst (encode_message C0 False (s0 [])) = Inr ?M3"
    by (simp add: encode_message_def C0_def s0_def e0_def Let_def)
  then have e3: "encode_message C0 False (s0 [])
                   = (Inr ?M3, snd (encode_message C0 False (s0 [])))"
    by (simp add: prod_eq_iff)
  have p: "parse_header C0 (CBytes []) = Inr []" and u: "parse_header C0 (CMap []) = Inr []"
    by (simp_all add: C0_def)
  have c: "create_recipients C0 [CArray [CBytes [], CMap [], CBytes ?kb],
                                 CArray [CBytes [], CMap [], CBytes [7, 7]]] h0
             = (Inr [16, 2], h0(16 := Recipient KeyWrap ?kb, 2 := Recipient KeyWrap [7, 7]))"
    by (simp add: C0_def numeral_2_eq_2 del: upt_rec_numeral)
  have r4: "recipients (self (s0 [11, 12])) = [11, 12]" and r3: "recipients (self (s0 [])) = []"
    by (simp_all add: s0_def e0_def)
  note th4 = encode_decode_recipients [OF e4, of True, unfolded Let_def]
  note th3 = encode_decode_recipients [OF e3, of True, unfolded Let_def]
  have d4: "\<exists>msg h2. from_cose_obj C0 ?M4 h0 = (Inr msg, h2) \<and> length (recipients msg) = 2"
    using th4 [THEN conjunct2, THEN conjunct2, THEN conjunct2, THEN conjunct2, THEN conjunct2,
        rule_format, of "[]" "[]" h0] p u c
    by (simp add: r4 numeral_2_eq_2 del: upt_rec_numeral)
  have n4: "fst (encode C0 True True (s0 [11, 12])) = Inr []"
    using th4 [THEN conjunct2, THEN conjunct2, THEN conjunct2, THEN conjunct2, THEN conjunct1]
    by (simp add: C0_def)
  have d3: "\<exists>msg h2. from_cose_obj C0 ?M3 h0 = (Inr msg, h2) \<and> length (recipients msg) = 0"
    using th3 [THEN conjunct2, THEN conjunct2, THEN conjunct2, THEN conjunct2, THEN conjunct2,
        rule_format, of "[]" "[]" h0] p u
    by (simp add: r3)
  from f4 g4 f3 d4 n4 d3 show ?thesis by blast
qed

end
